theory Spec2Isabelle
  imports Main "HOL-Library.Char_ord" "HOL-Library.List_Lexorder" "HOL-Library.Multiset"
begin

section \<open>Rank encoding and decoding of whitespace-separated text\<close>

text \<open>
  A shallow embedding of \<^verbatim>\<open>project5.cpp\<close> (encoder) and of
  \<^verbatim>\<open>project5_decompress.cpp\<close> (encoder followed by decoder). Both programs
  share \<^verbatim>\<open>addToken\<close>, \<^verbatim>\<open>processToken\<close>, the two scanning loops, the
  sort comparator and the construction of \<^verbatim>\<open>tokenPosition\<close> verbatim; the
  second program adds the decoding loop.

  Conventions of the embedding:
  \<^item> \<^verbatim>\<open>std::string\<close> is \<^typ>\<open>string\<close>; \<^verbatim>\<open>operator<\<close> on strings is the
    lexicographic order on unsigned bytes, which is the order of \<^typ>\<open>char list\<close>
    here.
  \<^item> \<^verbatim>\<open>int\<close> is a 32-bit signed integer: a value of type \<^typ>\<open>int\<close> in
    \<open>[-2^31, 2^31)\<close>, with every increment of the program followed by the
    two's-complement wrap-around \<open>int32\<close>, which is what the compiled programs do
    on overflow. The frequency counts wrap at \<open>2 ^ 31\<close> occurrences of one token,
    the positions at \<open>2 ^ 31\<close> distinct tokens.
  \<^item> \<^verbatim>\<open>unordered_map<string, int>\<close> is an association list with distinct keys.
    The order of its entries stands for the unspecified iteration order of the hash
    table; the theorems about sorting hold for every order of the entries.
  \<^item> \<^verbatim>\<open>map<string, int>\<close> is a partial function \<^typ>\<open>string \<rightharpoonup> int\<close>.
  \<^item> What is written to \<^verbatim>\<open>cerr\<close> is a list of diagnostics, one per message.
\<close>

subsection \<open>Characters and diagnostics\<close>

text \<open>
  \<^verbatim>\<open>isspace\<close> in the "C" locale, which is in force since the programs never set
  another: space, \<^verbatim>\<open>\t \n \v \f \r\<close>. No byte above \<open>0x7F\<close> is whitespace.
\<close>

definition isspace :: "char \<Rightarrow> bool" where
  "isspace c =
     (c = CHR '' '' \<or> c = CHR 0x09 \<or> c = CHR 0x0A \<or> c = CHR 0x0B \<or> c = CHR 0x0C \<or> c = CHR 0x0D)"

datatype diagnostic =
    TokenNotFound string   \<comment> \<open>\<^verbatim>\<open>Error: Token '...' not found in tokenPosition map.\<close>\<close>
  | InvalidPosition int    \<comment> \<open>\<^verbatim>\<open>Error: Invalid position ...\<close>\<close>

text \<open>The 32-bit \<^verbatim>\<open>int\<close> that holds the result \<open>x\<close> of an addition.\<close>

definition int32 :: "int \<Rightarrow> int" where
  "int32 x = (x + 2147483648) mod 4294967296 - 2147483648"

subsection \<open>Step 2: token frequencies\<close>

type_synonym frequency_map = "(string \<times> int) list"

text \<open>
  \<^verbatim>\<open>tokenFrequency[token]++\<close>: \<^verbatim>\<open>operator[]\<close> inserts the value \<open>0\<close> for a new
  key, then the entry is incremented as a 32-bit \<^verbatim>\<open>int\<close>.
\<close>

fun increment :: "frequency_map \<Rightarrow> string \<Rightarrow> frequency_map" where
  "increment [] token = [(token, int32 (0 + 1))]"
| "increment ((k, n) # rest) token =
     (if k = token then (k, int32 (n + 1)) # rest else (k, n) # increment rest token)"

definition addToken :: "frequency_map \<Rightarrow> string \<Rightarrow> frequency_map" where
  "addToken tokenFrequency token =
     (if token \<noteq> [] then increment tokenFrequency token else tokenFrequency)"

text \<open>
  The first scanning loop and the call after it. Arguments: the characters still to be
  read, the current \<^verbatim>\<open>token\<close>, the map so far.
\<close>

fun countPass :: "string \<Rightarrow> string \<Rightarrow> frequency_map \<Rightarrow> frequency_map" where
  "countPass [] token tokenFrequency = addToken tokenFrequency token"
| "countPass (aChar # rest) token tokenFrequency =
     (if isspace aChar then countPass rest [] (addToken tokenFrequency token)
      else countPass rest (token @ [aChar]) tokenFrequency)"

subsection \<open>Step 3: sorting\<close>

text \<open>The comparator handed to \<^verbatim>\<open>std::sort\<close>.\<close>

definition tokenLess :: "string \<times> int \<Rightarrow> string \<times> int \<Rightarrow> bool" where
  "tokenLess a b = (if snd a \<noteq> snd b then snd a > snd b else fst a < fst b)"

text \<open>
  \<^verbatim>\<open>std::sort\<close> promises a permutation of its input in which no element is
  \<^verbatim>\<open>comp\<close>-smaller than an earlier one. It is modelled by insertion sort;
  \<open>sortTokens_unique\<close> below shows that on entries with distinct keys every
  algorithm meeting that promise returns the same list.
\<close>

fun insertToken :: "string \<times> int \<Rightarrow> (string \<times> int) list \<Rightarrow> (string \<times> int) list" where
  "insertToken x [] = [x]"
| "insertToken x (y # ys) = (if tokenLess x y then x # y # ys else y # insertToken x ys)"

fun sortTokens :: "(string \<times> int) list \<Rightarrow> (string \<times> int) list" where
  "sortTokens [] = []"
| "sortTokens (x # xs) = insertToken x (sortTokens xs)"

subsection \<open>Step 4: positions\<close>

text \<open>
  The loop \<^verbatim>\<open>tokenPosition[pair.first] = position++\<close>, with \<^verbatim>\<open>position\<close> a
  32-bit \<^verbatim>\<open>int\<close>: the entry gets the old value, then the counter is incremented.
\<close>

fun assignPositions :: "(string \<times> int) list \<Rightarrow> int \<Rightarrow> (string \<rightharpoonup> int) \<Rightarrow> (string \<rightharpoonup> int)" where
  "assignPositions [] position tokenPosition = tokenPosition"
| "assignPositions (pair # rest) position tokenPosition =
     assignPositions rest (int32 (position + 1)) (tokenPosition(fst pair \<mapsto> position))"

subsection \<open>Step 5: encoding\<close>

text \<open>The state of the encoding pass: \<^verbatim>\<open>encodedText\<close> and what went to \<^verbatim>\<open>cerr\<close>.\<close>

type_synonym encoder_state = "int list \<times> diagnostic list"

definition processToken :: "(string \<rightharpoonup> int) \<Rightarrow> string \<Rightarrow> encoder_state \<Rightarrow> encoder_state" where
  "processToken tokenPosition token st =
     (if token \<noteq> [] then
        (case tokenPosition token of
           Some position \<Rightarrow> (fst st @ [position], snd st)
         | None \<Rightarrow> (fst st, snd st @ [TokenNotFound token]))
      else st)"

fun encodePass :: "(string \<rightharpoonup> int) \<Rightarrow> string \<Rightarrow> string \<Rightarrow> encoder_state \<Rightarrow> encoder_state" where
  "encodePass tokenPosition [] token st = processToken tokenPosition token st"
| "encodePass tokenPosition (aChar # rest) token st =
     (if isspace aChar then encodePass tokenPosition rest [] (processToken tokenPosition token st)
      else encodePass tokenPosition rest (token @ [aChar]) st)"

subsection \<open>Step 6: decoding\<close>

text \<open>
  The decoding loop. Arguments: \<^verbatim>\<open>tokens\<close>, the part of \<^verbatim>\<open>encodedText\<close> from
  index \<open>i\<close> on, and the contents of \<^verbatim>\<open>decodedText\<close>. The test
  \<^verbatim>\<open>i < encodedText.size() - 1\<close> holds when an element follows the current one. The
  loop ends with the decoded text or, at the first position out of range, with the
  diagnostic of the early \<^verbatim>\<open>return 1\<close>.
\<close>

fun decodeLoop :: "string list \<Rightarrow> int list \<Rightarrow> string \<Rightarrow> diagnostic + string" where
  "decodeLoop tokens [] decodedText = Inr decodedText"
| "decodeLoop tokens (position # rest) decodedText =
     (if position > 0 \<and> position \<le> int (length tokens) then
        decodeLoop tokens rest
          (decodedText @ tokens ! nat (position - 1) @ (if rest \<noteq> [] then '' '' else []))
      else Inl (InvalidPosition position))"

text \<open>What a run leaves behind: standard output, the diagnostics, the exit status.\<close>

record outcome =
  stdout :: string
  cerr :: "diagnostic list"
  exitStatus :: int

definition decodeStep :: "string list \<Rightarrow> int list \<Rightarrow> diagnostic list \<Rightarrow> outcome" where
  "decodeStep tokens encodedText errs =
     (case decodeLoop tokens encodedText [] of
        Inl e \<Rightarrow> \<lparr>stdout = [], cerr = errs @ [e], exitStatus = 1\<rparr>
      | Inr decodedText \<Rightarrow> \<lparr>stdout = decodedText @ [CHR 0x0A], cerr = errs, exitStatus = 0\<rparr>)"

subsection \<open>The stages of \<^verbatim>\<open>main\<close>\<close>

definition tokenFrequencyOf :: "string \<Rightarrow> frequency_map" where
  "tokenFrequencyOf inputContent = countPass inputContent [] []"

definition sortedTokensOf :: "string \<Rightarrow> (string \<times> int) list" where
  "sortedTokensOf inputContent = sortTokens (tokenFrequencyOf inputContent)"

definition tokenPositionOf :: "string \<Rightarrow> (string \<rightharpoonup> int)" where
  "tokenPositionOf inputContent = assignPositions (sortedTokensOf inputContent) 1 Map.empty"

definition encodeOf :: "string \<Rightarrow> encoder_state" where
  "encodeOf inputContent = encodePass (tokenPositionOf inputContent) inputContent [] ([], [])"

definition tokensOf :: "string \<Rightarrow> string list" where
  "tokensOf inputContent = map fst (sortedTokensOf inputContent)"

text \<open>\<^verbatim>\<open>main\<close> of \<^verbatim>\<open>project5_decompress.cpp\<close>.\<close>

definition decompressMain :: "string \<Rightarrow> outcome" where
  "decompressMain inputContent =
     decodeStep (tokensOf inputContent) (fst (encodeOf inputContent)) (snd (encodeOf inputContent))"

subsection \<open>The token sequence of an input\<close>

text \<open>
  Both scanning loops split the input in the same way; \<open>scanTokens\<close> is that loop
  with the handler replaced by "append the token, unless it is empty". It names the
  token sequence \<open>T\<close> of an input; \<open>countPass_scan\<close> and \<open>encodePass_scan\<close> below show
  that each pass handles exactly these tokens, in this order.
\<close>

fun scanTokens :: "string \<Rightarrow> string \<Rightarrow> string list" where
  "scanTokens [] token = (if token \<noteq> [] then [token] else [])"
| "scanTokens (aChar # rest) token =
     (if isspace aChar then (if token \<noteq> [] then [token] else []) @ scanTokens rest []
      else scanTokens rest (token @ [aChar]))"

definition tokenize :: "string \<Rightarrow> string list" where
  "tokenize inputContent = scanTokens inputContent []"

text \<open>Tokens separated by single spaces: the text the decoder rebuilds.\<close>

fun joinTokens :: "string list \<Rightarrow> string" where
  "joinTokens [] = []"
| "joinTokens (t # ts) = t @ (if ts \<noteq> [] then '' '' else []) @ joinTokens ts"

text \<open>The rank-to-token lookup of the decoder: the bounds check, then the index.\<close>

definition rankToToken :: "string list \<Rightarrow> int \<Rightarrow> string option" where
  "rankToToken tokens position =
     (if position > 0 \<and> position \<le> int (length tokens) then Some (tokens ! nat (position - 1))
      else None)"

subsection \<open>Two inputs beyond the range of \<^verbatim>\<open>int\<close>\<close>

text \<open>
  All \<open>2 ^ 31\<close> words of 31 characters over \<open>0\<close> and \<open>1\<close>, separated by single
  spaces: an input with \<open>2 ^ 31\<close> distinct tokens.
\<close>

definition manyDistinctTokens :: string where
  "manyDistinctTokens = joinTokens (List.n_lists 31 ''01'')"


subsection \<open>Both passes handle the token sequence\<close>

lemma countPass_scan:
  "countPass inputContent token tf = foldl addToken tf (scanTokens inputContent token)"
  by (induction inputContent arbitrary: token tf) (simp_all add: addToken_def)

lemma encodePass_scan:
  "encodePass tp inputContent token st =
     foldl (\<lambda>s t. processToken tp t s) st (scanTokens inputContent token)"
  by (induction inputContent arbitrary: token st) (simp_all add: processToken_def)

lemma scanTokens_nonempty: "t \<in> set (scanTokens inputContent token) \<Longrightarrow> t \<noteq> []"
  by (induction inputContent arbitrary: token) (auto split: if_splits)

lemma scanTokens_no_space:
  "t \<in> set (scanTokens inputContent token) \<Longrightarrow> list_all (\<lambda>c. \<not> isspace c) token \<Longrightarrow>
     list_all (\<lambda>c. \<not> isspace c) t"
  by (induction inputContent arbitrary: token) (auto split: if_splits)

lemma scanTokens_append:
  "list_all (\<lambda>c. \<not> isspace c) t \<Longrightarrow> scanTokens (t @ rest) token = scanTokens rest (token @ t)"
  by (induction t arbitrary: token) simp_all

lemma scanTokens_joinTokens:
  "list_all (\<lambda>t. t \<noteq> [] \<and> list_all (\<lambda>c. \<not> isspace c) t) ts \<Longrightarrow>
     scanTokens (joinTokens ts) [] = ts"
proof (induction ts)
  case Nil
  show ?case by simp
next
  case (Cons t ts)
  then have t: "t \<noteq> []" "list_all (\<lambda>c. \<not> isspace c) t"
    and IH: "scanTokens (joinTokens ts) [] = ts" by simp_all
  show ?case
  proof (cases "ts = []")
    case True
    with t scanTokens_append [of t "[]" "[]"] show ?thesis by simp
  next
    case False
    with t IH show ?thesis by (simp add: scanTokens_append isspace_def)
  qed
qed

lemma tokenize_valid:
  "list_all (\<lambda>t. t \<noteq> [] \<and> list_all (\<lambda>c. \<not> isspace c) t) (tokenize inputContent)"
  unfolding tokenize_def list_all_iff
  using scanTokens_nonempty scanTokens_no_space [of _ inputContent "[]"]
  by (auto simp: list_all_iff)

lemma tokenize_joinTokens:
  "list_all (\<lambda>t. t \<noteq> [] \<and> list_all (\<lambda>c. \<not> isspace c) t) ts \<Longrightarrow> tokenize (joinTokens ts) = ts"
  by (simp add: tokenize_def scanTokens_joinTokens)

subsection \<open>32-bit arithmetic\<close>

lemma int32_id: "- 2147483648 \<le> x \<Longrightarrow> x < 2147483648 \<Longrightarrow> int32 x = x"
  by (simp add: int32_def)

lemma int32_add_left: "int32 (int32 a + b) = int32 (a + b)"
proof -
  have "(int32 a + b + 2147483648) mod 4294967296 =
          ((a + 2147483648) mod 4294967296 + b) mod 4294967296"
    by (simp add: int32_def)
  also have "\<dots> = (a + 2147483648 + b) mod 4294967296"
    by (rule mod_add_left_eq)
  also have "a + 2147483648 + b = a + b + 2147483648"
    by simp
  finally show ?thesis
    unfolding int32_def by (rule arg_cong [where f = "\<lambda>x. x - 2147483648"])
qed


subsection \<open>The frequency map holds the number of occurrences of each token, as a 32-bit value\<close>

lemma keys_increment:
  "map fst (increment tf t) = (if t \<in> set (map fst tf) then map fst tf else map fst tf @ [t])"
  by (induction tf) force+

lemma set_keys_increment:
  "set (map fst (increment tf t)) = insert t (set (map fst tf))"
  unfolding keys_increment by auto

lemma distinct_keys_increment:
  "distinct (map fst tf) \<Longrightarrow> distinct (map fst (increment tf t))"
  by (simp add: keys_increment)


lemma keys_foldl_increment:
  "distinct (map fst tf) \<Longrightarrow>
     distinct (map fst (foldl increment tf ts)) \<and>
     set (map fst (foldl increment tf ts)) = set (map fst tf) \<union> set ts"
  by (induction ts arbitrary: tf)
    (simp_all add: distinct_keys_increment set_keys_increment del: set_map)


lemma foldl_addToken:
  "list_all (\<lambda>t. t \<noteq> []) ts \<Longrightarrow> foldl addToken tf ts = foldl increment tf ts"
  by (induction ts arbitrary: tf) (simp_all add: addToken_def)

lemma tokenFrequencyOf_eq:
  "tokenFrequencyOf inputContent = foldl increment [] (tokenize inputContent)"
  using tokenize_valid [of inputContent]
  by (simp add: tokenFrequencyOf_def countPass_scan tokenize_def foldl_addToken list_all_iff)

lemma distinct_keys_tokenFrequencyOf: "distinct (map fst (tokenFrequencyOf inputContent))"
  using keys_foldl_increment [of "[]"] by (simp add: tokenFrequencyOf_eq)

lemma keys_tokenFrequencyOf:
  "set (map fst (tokenFrequencyOf inputContent)) = set (tokenize inputContent)"
  using keys_foldl_increment [of "[]" "tokenize inputContent"] by (simp add: tokenFrequencyOf_eq)


subsection \<open>The comparator is a strict total order; the sorted list is unique\<close>

lemma tokenLess_irrefl: "\<not> tokenLess a a"
  by (simp add: tokenLess_def)

lemma tokenLess_trans: "tokenLess a b \<Longrightarrow> tokenLess b c \<Longrightarrow> tokenLess a c"
  by (auto simp: tokenLess_def split: if_splits)

lemma tokenLess_asym: "tokenLess a b \<Longrightarrow> \<not> tokenLess b a"
  using tokenLess_trans tokenLess_irrefl by blast

lemma tokenLess_total: "a \<noteq> b \<Longrightarrow> tokenLess a b \<or> tokenLess b a"
  by (cases a, cases b) (auto simp: tokenLess_def)


lemma mset_insertToken: "mset (insertToken x ys) = add_mset x (mset ys)"
  by (induction ys) simp_all

lemma mset_sortTokens: "mset (sortTokens xs) = mset xs"
  by (induction xs) (simp_all add: mset_insertToken)

lemma set_insertToken: "set (insertToken x ys) = insert x (set ys)"
  using mset_insertToken [of x ys] by (metis set_mset_add_mset_insert set_mset_mset)

lemma set_sortTokens: "set (sortTokens xs) = set xs"
  using mset_sortTokens [of xs] by (metis set_mset_mset)

lemma length_sortTokens: "length (sortTokens xs) = length xs"
  using mset_sortTokens [of xs] by (metis size_mset)

lemma distinct_sortTokens: "distinct (sortTokens xs) = distinct xs"
  using mset_sortTokens [of xs] by (metis mset_eq_imp_distinct_iff)

lemma keys_sortTokens: "mset (map fst (sortTokens xs)) = mset (map fst xs)"
  using mset_sortTokens [of xs] by (metis mset_map)

text \<open>The promise of \<^verbatim>\<open>std::sort\<close> holds for the insertion sort, on every list.\<close>

lemma sorted_insertToken:
  "sorted_wrt (\<lambda>a b. \<not> tokenLess b a) ys \<Longrightarrow>
     sorted_wrt (\<lambda>a b. \<not> tokenLess b a) (insertToken x ys)"
proof (induction ys)
  case Nil
  show ?case by simp
next
  case (Cons y ys)
  show ?case
  proof (cases "tokenLess x y")
    case True
    have "\<not> tokenLess z x" if "z \<in> set (y # ys)" for z
    proof
      assume "tokenLess z x"
      from this True have zy: "tokenLess z y" by (rule tokenLess_trans)
      from that Cons.prems have "z = y \<or> \<not> tokenLess z y" by auto
      with zy show False by (auto simp: tokenLess_irrefl)
    qed
    with True Cons.prems show ?thesis by simp
  next
    case False
    with Cons show ?thesis by (auto simp: set_insertToken)
  qed
qed

lemma sorted_sortTokens: "sorted_wrt (\<lambda>a b. \<not> tokenLess b a) (sortTokens xs)"
  by (induction xs) (simp_all add: sorted_insertToken)

lemma strict_sorted_if_distinct:
  "distinct ys \<Longrightarrow> sorted_wrt (\<lambda>a b. \<not> tokenLess b a) ys \<Longrightarrow> sorted_wrt tokenLess ys"
proof (induction ys)
  case Nil
  show ?case by simp
next
  case (Cons y ys)
  have "tokenLess y z" if "z \<in> set ys" for z
  proof -
    from that Cons.prems have "y \<noteq> z" and "\<not> tokenLess z y" by auto
    then show ?thesis using tokenLess_total by blast
  qed
  with Cons show ?case by simp
qed

lemma strict_sorted_unique:
  "sorted_wrt tokenLess xs \<Longrightarrow> sorted_wrt tokenLess ys \<Longrightarrow> set xs = set ys \<Longrightarrow> xs = ys"
proof (induction xs arbitrary: ys)
  case Nil
  then show ?case by simp
next
  case (Cons x xs)
  then obtain y ys' where ys: "ys = y # ys'" by (cases ys) auto
  have xy: "x = y"
  proof (rule ccontr)
    assume neq: "x \<noteq> y"
    with Cons.prems ys have "x \<in> set ys'" and "y \<in> set xs" by auto
    with Cons.prems ys have "tokenLess y x" and "tokenLess x y" by auto
    then show False using tokenLess_asym by blast
  qed
  from Cons.prems ys have "x \<notin> set xs" and "y \<notin> set ys'"
    by (auto simp: tokenLess_irrefl)
  with Cons.prems ys xy have "set xs = set ys'" by auto
  with Cons ys xy show ?case by simp
qed

lemma sortTokens_unique:
  assumes "distinct xs" and "mset ys = mset xs"
    and "sorted_wrt (\<lambda>a b. \<not> tokenLess b a) ys"
  shows "ys = sortTokens xs"
proof -
  from assms(1,2) have dy: "distinct ys" by (metis mset_eq_imp_distinct_iff)
  from assms(2) have "set ys = set (sortTokens xs)"
    by (metis set_mset_mset set_sortTokens)
  moreover from dy assms(3) have "sorted_wrt tokenLess ys"
    by (rule strict_sorted_if_distinct)
  moreover from assms(1) have "sorted_wrt tokenLess (sortTokens xs)"
    by (simp add: strict_sorted_if_distinct distinct_sortTokens sorted_sortTokens)
  ultimately show ?thesis by (rule strict_sorted_unique [rotated 2])
qed

lemma sortTokens_permuted:
  "distinct xs \<Longrightarrow> mset es = mset xs \<Longrightarrow> sortTokens es = sortTokens xs"
  by (rule sortTokens_unique) (simp_all add: mset_sortTokens sorted_sortTokens)

subsection \<open>Positions follow the sorted order\<close>

lemma assignPositions_other:
  "t \<notin> set (map fst es) \<Longrightarrow> assignPositions es p m t = m t"
  by (induction es arbitrary: p m) auto

lemma dom_assignPositions:
  "dom (assignPositions es p m) = dom m \<union> set (map fst es)"
  by (induction es arbitrary: p m) auto

lemma assignPositions_nth:
  "distinct (map fst es) \<Longrightarrow> i < length es \<Longrightarrow> int32 p = p \<Longrightarrow>
     assignPositions es p m (fst (es ! i)) = Some (int32 (p + int i))"
proof (induction es arbitrary: p m i)
  case Nil
  then show ?case by simp
next
  case (Cons e es)
  show ?case
  proof (cases i)
    case 0
    with Cons.prems show ?thesis by (simp add: assignPositions_other)
  next
    case (Suc j)
    have "int32 (int32 (p + 1)) = int32 (p + 1)"
      using int32_add_left [of "p + 1" 0] by simp
    with Suc Cons.prems
    have "assignPositions es (int32 (p + 1)) (m(fst e \<mapsto> p)) (fst (es ! j)) =
            Some (int32 (int32 (p + 1) + int j))"
      by (intro Cons.IH) simp_all
    with Suc show ?thesis by (simp add: int32_add_left add.assoc)
  qed
qed

text \<open>Below \<open>2 ^ 31\<close> entries no position wraps.\<close>

lemma assignPositions_nth_small:
  assumes "distinct (map fst es)" and "i < length es" and "length es < 2147483648"
  shows "assignPositions es 1 Map.empty (fst (es ! i)) = Some (1 + int i)"
proof -
  from assms(2,3) have "int32 (1 + int i) = 1 + int i" by (intro int32_id) simp_all
  moreover have "int32 1 = 1" by (simp add: int32_def)
  ultimately show ?thesis
    using assignPositions_nth [OF assms(1,2), of 1 Map.empty] by simp
qed

lemma assignPositions_iff:
  assumes "distinct (map fst es)" and "length es < 2147483648"
  shows "assignPositions es 1 Map.empty t = Some r \<longleftrightarrow>
           0 < r \<and> r \<le> int (length es) \<and> map fst es ! nat (r - 1) = t"
proof
  assume L: "assignPositions es 1 Map.empty t = Some r"
  then have "t \<in> set (map fst es)"
    using assignPositions_other [of t es 1 Map.empty] by auto
  then obtain i where i: "i < length es" "fst (es ! i) = t"
    by (auto simp: in_set_conv_nth)
  with assms L have "r = 1 + int i"
    using assignPositions_nth_small [of es i] by simp
  with i show "0 < r \<and> r \<le> int (length es) \<and> map fst es ! nat (r - 1) = t" by simp
next
  assume R: "0 < r \<and> r \<le> int (length es) \<and> map fst es ! nat (r - 1) = t"
  then have "nat (r - 1) < length es" and "fst (es ! nat (r - 1)) = t" by auto
  with assms have "assignPositions es 1 Map.empty t = Some (1 + int (nat (r - 1)))"
    using assignPositions_nth_small [of es "nat (r - 1)"] by simp
  with R show "assignPositions es 1 Map.empty t = Some r" by simp
qed

subsection \<open>What the encoding pass and the decoding loop compute\<close>

lemma foldl_processToken:
  "list_all (\<lambda>t. t \<noteq> []) ts \<Longrightarrow>
     foldl (\<lambda>s t. processToken tp t s) st ts =
       (fst st @ map (the \<circ> tp) (filter (\<lambda>t. tp t \<noteq> None) ts),
        snd st @ map TokenNotFound (filter (\<lambda>t. tp t = None) ts))"
  by (induction ts arbitrary: st) (auto simp: processToken_def)

lemma encodePass_eq:
  "encodePass tp inputContent [] st =
     (fst st @ map (the \<circ> tp) (filter (\<lambda>t. tp t \<noteq> None) (tokenize inputContent)),
      snd st @ map TokenNotFound (filter (\<lambda>t. tp t = None) (tokenize inputContent)))"
  using tokenize_valid [of inputContent]
  by (simp add: encodePass_scan tokenize_def foldl_processToken list_all_iff)

lemma decodeLoop_eq:
  "decodeLoop tokens ps out =
     (case find (\<lambda>p. \<not> (p > 0 \<and> p \<le> int (length tokens))) ps of
        None \<Rightarrow> Inr (out @ joinTokens (map (\<lambda>p. tokens ! nat (p - 1)) ps))
      | Some p \<Rightarrow> Inl (InvalidPosition p))"
  by (induction ps arbitrary: out) (auto split: option.splits)

subsection \<open>The stages of \<^verbatim>\<open>main\<close> on one input\<close>

lemma distinct_tokenFrequencyOf: "distinct (tokenFrequencyOf inputContent)"
  using distinct_keys_tokenFrequencyOf [of inputContent] by (rule distinct_map [THEN iffD1, THEN conjunct1])

lemma distinct_tokensOf: "distinct (tokensOf inputContent)"
  unfolding tokensOf_def sortedTokensOf_def
  using keys_sortTokens [of "tokenFrequencyOf inputContent"] distinct_keys_tokenFrequencyOf [of inputContent]
  by (metis mset_eq_imp_distinct_iff)

lemma set_tokensOf: "set (tokensOf inputContent) = set (tokenize inputContent)"
  unfolding tokensOf_def sortedTokensOf_def
  using keys_sortTokens [of "tokenFrequencyOf inputContent"] keys_tokenFrequencyOf [of inputContent]
  by (metis set_mset_mset)

lemma length_tokensOf: "length (tokensOf inputContent) = card (set (tokenize inputContent))"
  using distinct_card [OF distinct_tokensOf, of inputContent] by (simp add: set_tokensOf)

lemma dom_tokenPositionOf: "dom (tokenPositionOf inputContent) = set (tokenize inputContent)"
  using set_tokensOf [of inputContent]
  by (simp add: tokenPositionOf_def dom_assignPositions tokensOf_def)

text \<open>
  The facts from here to \<open>decompressMain_eq\<close> need the positions not to wrap: the
  input has fewer than \<open>2 ^ 31\<close> distinct tokens.
\<close>

lemma tokenPositionOf_iff:
  assumes "card (set (tokenize inputContent)) < 2147483648"
  shows "tokenPositionOf inputContent t = Some r \<longleftrightarrow>
     0 < r \<and> r \<le> int (length (tokensOf inputContent)) \<and> tokensOf inputContent ! nat (r - 1) = t"
proof -
  from assms have "length (sortedTokensOf inputContent) < 2147483648"
    using length_tokensOf [of inputContent] by (simp add: tokensOf_def)
  then show ?thesis
    using assignPositions_iff [of "sortedTokensOf inputContent" t r] distinct_tokensOf [of inputContent]
    by (simp add: tokenPositionOf_def tokensOf_def)
qed

lemma encodeOf_eq:
  "encodeOf inputContent =
     (map (the \<circ> tokenPositionOf inputContent) (tokenize inputContent), [])"
proof -
  have "tokenPositionOf inputContent t \<noteq> None" if "t \<in> set (tokenize inputContent)" for t
    using that dom_tokenPositionOf [of inputContent] by auto
  then have "filter (\<lambda>t. tokenPositionOf inputContent t \<noteq> None) (tokenize inputContent) = tokenize inputContent"
    and "filter (\<lambda>t. tokenPositionOf inputContent t = None) (tokenize inputContent) = []"
    by (simp_all add: filter_id_conv)
  then show ?thesis by (simp add: encodeOf_def encodePass_eq)
qed

lemma code_of_token:
  assumes "card (set (tokenize inputContent)) < 2147483648"
    and "t \<in> set (tokenize inputContent)"
  shows "0 < the (tokenPositionOf inputContent t)"
    and "the (tokenPositionOf inputContent t) \<le> int (length (tokensOf inputContent))"
    and "tokensOf inputContent ! nat (the (tokenPositionOf inputContent t) - 1) = t"
proof -
  from assms(2) obtain r where r: "tokenPositionOf inputContent t = Some r"
    using dom_tokenPositionOf [of inputContent] by auto
  with assms(1)
  have "0 < r \<and> r \<le> int (length (tokensOf inputContent)) \<and> tokensOf inputContent ! nat (r - 1) = t"
    by (simp add: tokenPositionOf_iff)
  with r show "0 < the (tokenPositionOf inputContent t)"
    and "the (tokenPositionOf inputContent t) \<le> int (length (tokensOf inputContent))"
    and "tokensOf inputContent ! nat (the (tokenPositionOf inputContent t) - 1) = t"
    by simp_all
qed

lemma codes_in_range:
  "card (set (tokenize inputContent)) < 2147483648 \<Longrightarrow> r \<in> set (fst (encodeOf inputContent)) \<Longrightarrow>
     0 < r \<and> r \<le> int (length (tokensOf inputContent))"
  by (auto simp: encodeOf_eq code_of_token)

lemma decoded_tokens:
  "card (set (tokenize inputContent)) < 2147483648 \<Longrightarrow>
     map (\<lambda>p. tokensOf inputContent ! nat (p - 1)) (fst (encodeOf inputContent)) =
       tokenize inputContent"
  by (simp add: encodeOf_eq code_of_token map_idI)

lemma no_invalid_code:
  "card (set (tokenize inputContent)) < 2147483648 \<Longrightarrow>
     find (\<lambda>p. \<not> (p > 0 \<and> p \<le> int (length (tokensOf inputContent))))
       (fst (encodeOf inputContent)) = None"
  using codes_in_range [of inputContent] by (auto simp: find_None_iff)

lemma decodeLoop_encodeOf:
  "card (set (tokenize inputContent)) < 2147483648 \<Longrightarrow>
     decodeLoop (tokensOf inputContent) (fst (encodeOf inputContent)) [] =
       Inr (joinTokens (tokenize inputContent))"
  by (simp only: decodeLoop_eq no_invalid_code decoded_tokens option.case append_Nil)

lemma decompressMain_eq:
  "card (set (tokenize inputContent)) < 2147483648 \<Longrightarrow>
     decompressMain inputContent =
       \<lparr>stdout = joinTokens (tokenize inputContent) @ [CHR 0x0A], cerr = [], exitStatus = 0\<rparr>"
  by (simp add: decompressMain_def decodeStep_def decodeLoop_encodeOf) (simp add: encodeOf_eq)

subsection \<open>Order of positions, range of positions, the empty input\<close>






lemma ran_tokenPositionOf:
  "card (set (tokenize inputContent)) < 2147483648 \<Longrightarrow>
     ran (tokenPositionOf inputContent) = {1 .. int (length (tokensOf inputContent))}"
  by (auto simp: ran_def tokenPositionOf_iff)

lemma unique_token_of_rank:
  "card (set (tokenize inputContent)) < 2147483648 \<Longrightarrow>
     (\<exists>!t. tokenPositionOf inputContent t = Some r) \<longleftrightarrow>
       1 \<le> r \<and> r \<le> int (length (tokensOf inputContent))"
  by (auto simp: tokenPositionOf_iff)

lemma tokenPositionOf_rankToToken:
  "card (set (tokenize inputContent)) < 2147483648 \<Longrightarrow>
     tokenPositionOf inputContent t = Some r \<longleftrightarrow> rankToToken (tokensOf inputContent) r = Some t"
  by (auto simp: tokenPositionOf_iff rankToToken_def)

lemma decodeStep_eq:
  "decodeStep tokens encodedText errs =
     (case find (\<lambda>r. \<not> (1 \<le> r \<and> r \<le> int (length tokens))) encodedText of
        None \<Rightarrow>
          \<lparr>stdout = joinTokens (map (\<lambda>r. tokens ! nat (r - 1)) encodedText) @ [CHR 0x0A],
           cerr = errs, exitStatus = 0\<rparr>
      | Some r \<Rightarrow> \<lparr>stdout = [], cerr = errs @ [InvalidPosition r], exitStatus = 1\<rparr>)"
proof -
  have "(\<lambda>r::int. \<not> (1 \<le> r \<and> r \<le> int (length tokens))) = (\<lambda>p. \<not> (p > 0 \<and> p \<le> int (length tokens)))"
    by auto
  then show ?thesis
    by (simp add: decodeStep_def decodeLoop_eq split: option.splits)
qed

lemma empty_stages:
  assumes "tokenize inputContent = []"
  shows "tokenFrequencyOf inputContent = []" and "sortedTokensOf inputContent = []"
    and "tokensOf inputContent = []" and "tokenPositionOf inputContent = Map.empty"
    and "encodeOf inputContent = ([], [])"
proof -
  from assms show F: "tokenFrequencyOf inputContent = []" by (simp add: tokenFrequencyOf_eq)
  then show S: "sortedTokensOf inputContent = []" by (simp add: sortedTokensOf_def)
  then show "tokensOf inputContent = []" by (simp add: tokensOf_def)
  from S show "tokenPositionOf inputContent = Map.empty" by (simp add: tokenPositionOf_def)
  from assms show "encodeOf inputContent = ([], [])" by (simp add: encodeOf_eq)
qed

subsection \<open>Where the 32-bit counters wrap\<close>

lemma int32_wraps: "int32 (2147483647 + 1) = - 2147483648"
  by (simp add: int32_def)

lemma tokenPositionOf_nth_wrapped:
  assumes "i < length (tokensOf inputContent)"
  shows "tokenPositionOf inputContent (tokensOf inputContent ! i) = Some (int32 (1 + int i))"
proof -
  have "int32 1 = 1" by (simp add: int32_def)
  moreover from assms have "i < length (sortedTokensOf inputContent)" by (simp add: tokensOf_def)
  moreover have "distinct (map fst (sortedTokensOf inputContent))"
    using distinct_tokensOf [of inputContent] by (simp add: tokensOf_def)
  ultimately have "assignPositions (sortedTokensOf inputContent) 1 Map.empty
      (fst (sortedTokensOf inputContent ! i)) = Some (int32 (1 + int i))"
    by (intro assignPositions_nth)
  with assms show ?thesis by (simp add: tokenPositionOf_def tokensOf_def)
qed

lemma decodeLoop_invalid:
  assumes "r \<in> set encodedText" and "\<not> (r > 0 \<and> r \<le> int (length tokens))"
  shows "\<exists>p. decodeLoop tokens encodedText out = Inl (InvalidPosition p)"
proof -
  from assms have "find (\<lambda>p. \<not> (p > 0 \<and> p \<le> int (length tokens))) encodedText \<noteq> None"
    by (auto simp: find_None_iff)
  then show ?thesis by (auto simp: decodeLoop_eq)
qed

text \<open>The input with \<open>2 ^ 31\<close> distinct tokens.\<close>

lemma tokenize_manyDistinctTokens: "tokenize manyDistinctTokens = List.n_lists 31 ''01''"
  unfolding manyDistinctTokens_def
  by (rule tokenize_joinTokens) (auto simp: list_all_iff set_n_lists isspace_def)

lemma card_manyDistinctTokens: "card (set (tokenize manyDistinctTokens)) = 2147483648"
proof -
  have len: "length ''01'' = (2::nat)" by simp
  have "distinct (List.n_lists 31 ''01'')" by (rule distinct_n_lists) simp
  then have "card (set (List.n_lists 31 ''01'')) = length (List.n_lists 31 ''01'')"
    by (rule distinct_card)
  also have "\<dots> = (2::nat) ^ 31"
    by (simp only: length_n_lists len)
  also have "\<dots> = 2147483648" by simp
  finally show ?thesis by (simp only: tokenize_manyDistinctTokens)
qed

lemma wrapped_position:
  "tokenPositionOf manyDistinctTokens (tokensOf manyDistinctTokens ! 2147483647) =
     Some (- 2147483648)"
proof -
  have "(2147483647::nat) < length (tokensOf manyDistinctTokens)"
    by (simp add: length_tokensOf card_manyDistinctTokens)
  then show ?thesis
    using tokenPositionOf_nth_wrapped [of 2147483647 manyDistinctTokens]
    by (simp add: int32_def)
qed

lemma wrapped_code:
  "- 2147483648 \<in> set (fst (encodeOf manyDistinctTokens))"
proof -
  have "(2147483647::nat) < length (tokensOf manyDistinctTokens)"
    by (simp add: length_tokensOf card_manyDistinctTokens)
  then have "tokensOf manyDistinctTokens ! 2147483647 \<in> set (tokensOf manyDistinctTokens)"
    by (rule nth_mem)
  then have "tokensOf manyDistinctTokens ! 2147483647 \<in> set (tokenize manyDistinctTokens)"
    by (simp add: set_tokensOf)
  then have "the (tokenPositionOf manyDistinctTokens (tokensOf manyDistinctTokens ! 2147483647))
      \<in> set (fst (encodeOf manyDistinctTokens))"
    by (simp add: encodeOf_eq)
  then show ?thesis by (simp add: wrapped_position)
qed

lemma decodeLoop_manyDistinctTokens:
  "\<exists>p. decodeLoop (tokensOf manyDistinctTokens) (fst (encodeOf manyDistinctTokens)) [] =
     Inl (InvalidPosition p)"
  by (rule decodeLoop_invalid [OF wrapped_code]) simp

lemma decompressMain_manyDistinctTokens:
  "stdout (decompressMain manyDistinctTokens) = []"
  "exitStatus (decompressMain manyDistinctTokens) = 1"
  using decodeLoop_manyDistinctTokens
  by (auto simp: decompressMain_def decodeStep_def)






section \<open>The claims\<close>

text \<open>
  In what follows \<open>tokenize inputContent\<close> is the token sequence \<open>T\<close> of an input,
  \<open>card (set T)\<close> its number \<open>D\<close> of distinct tokens, \<open>tokenPositionOf\<close> the
  token-to-rank lookup, \<open>tokensOf\<close> the rank-to-token lookup, and
  \<open>fst (encodeOf inputContent)\<close> the code sequence. By \<open>tokenize_joinTokens\<close>
  every sequence of non-empty tokens without whitespace is the token sequence of an
  input, so a statement for all inputs is a statement for all token sequences.

  Ranks and frequency counts are 32-bit \<^verbatim>\<open>int\<close>s. The statements about rank
  values hold for inputs with fewer than \<open>2 ^ 31 = 2147483648\<close> distinct tokens, and
  fail on \<open>manyDistinctTokens\<close>; the statement about frequencies holds for tokens
  that occur fewer than \<open>2 ^ 31\<close> times, and fails on \<open>oneFrequentToken\<close>.
\<close>

text \<open>
  C1 (round trip), as amended. For every input with fewer than \<open>2 ^ 31\<close> distinct
  tokens, decoding the code sequence of the encoder against the rank table built from
  the same input gives back the token sequence: the tokens the decoder writes are
  exactly \<open>T\<close> in the same order, the decoded text is \<open>T\<close> joined by single spaces,
  and splitting that text again yields \<open>T\<close>. The program prints that text, writes no
  diagnostic and ends with exit status 0.
\<close>

theorem round_trip:
  "card (set (tokenize inputContent)) < 2147483648 \<Longrightarrow>
   map (\<lambda>p. tokensOf inputContent ! nat (p - 1)) (fst (encodeOf inputContent)) = tokenize inputContent
   \<and> decodeLoop (tokensOf inputContent) (fst (encodeOf inputContent)) [] =
       Inr (joinTokens (tokenize inputContent))
   \<and> tokenize (joinTokens (tokenize inputContent)) = tokenize inputContent
   \<and> decompressMain inputContent =
       \<lparr>stdout = joinTokens (tokenize inputContent) @ [CHR 0x0A], cerr = [], exitStatus = 0\<rparr>"
  by (simp add: decoded_tokens decodeLoop_encodeOf tokenize_joinTokens tokenize_valid
      decompressMain_eq)

theorem round_trip_witness:
  "card (set (tokenize ''b a  b'')) < 2147483648
   \<and> decodeLoop (tokensOf ''b a  b'') (fst (encodeOf ''b a  b'')) [] =
       Inr (joinTokens (tokenize ''b a  b''))
   \<and> decompressMain ''b a  b'' =
       \<lparr>stdout = joinTokens (tokenize ''b a  b'') @ [CHR 0x0A], cerr = [], exitStatus = 0\<rparr>"
proof -
  have T: "tokenize ''b a  b'' = [''b'', ''a'', ''b'']" by code_simp
  have h: "card (set (tokenize ''b a  b'')) < 2147483648"
    using card_length [of "tokenize ''b a  b''"] by (simp add: T)
  from round_trip [OF h] h show ?thesis by blast
qed

text \<open>
  Without the bound the round trip fails: on the input with \<open>2 ^ 31\<close> distinct tokens
  the last position wraps to \<open>- 2 ^ 31\<close>, the decoding loop stops at an invalid
  position, and the program prints nothing and ends with exit status 1.
\<close>

theorem round_trip_counterexample:
  "decodeLoop (tokensOf manyDistinctTokens) (fst (encodeOf manyDistinctTokens)) [] \<noteq>
     Inr (joinTokens (tokenize manyDistinctTokens))
   \<and> stdout (decompressMain manyDistinctTokens) = []
   \<and> exitStatus (decompressMain manyDistinctTokens) = 1"
  using decodeLoop_manyDistinctTokens by (auto simp: decompressMain_manyDistinctTokens)

text \<open>
  C2 (length preservation). The code sequence obtained by encoding an input against
  the lookup built from that input has one rank per token occurrence: its length is
  the length of the token sequence.
\<close>

theorem length_preservation:
  "length (fst (encodeOf inputContent)) = length (tokenize inputContent)"
  by (simp add: encodeOf_eq)

text \<open>
  C3 (unresolvable token), as amended. The encoding pass does not abort on a token
  without an entry in the token-to-rank lookup: it writes one token-not-found
  diagnostic for it, appends nothing to the code sequence, and goes on. The code
  sequence therefore holds the ranks of exactly the tokens that have an entry, in input
  order, and the diagnostics name the tokens that have none, in input order.
\<close>

theorem unresolved_token_skipped:
  "encodePass tokenPosition inputContent [] ([], []) =
     (map (the \<circ> tokenPosition) (filter (\<lambda>t. tokenPosition t \<noteq> None) (tokenize inputContent)),
      map TokenNotFound (filter (\<lambda>t. tokenPosition t = None) (tokenize inputContent)))"
  by (simp add: encodePass_eq)

text \<open>
  The claim as stated fails: with the lookup built from the text \<open>a\<close>, the text
  \<open>a b a\<close> has the token \<open>b\<close> without an entry; the pass reports it, drops it and
  still encodes the token after it, giving two ranks for three tokens.
\<close>

theorem unresolved_token_counterexample:
  "tokenize ''a b a'' = [''a'', ''b'', ''a'']
   \<and> tokenPositionOf ''a'' ''b'' = None
   \<and> encodePass (tokenPositionOf ''a'') ''a b a'' [] ([], []) = ([1, 1], [TokenNotFound ''b''])"
  by code_simp

text \<open>
  C4 (invalid rank). The decoding step scans the code sequence for the first rank
  outside \<open>[1, D]\<close>, \<open>D\<close> being the size of the rank-to-token lookup. If there is
  none, the token at each rank is written, in order, and the run succeeds. If there is
  one, the run ends at once with the invalid-position diagnostic for that rank and
  exit status 1, and nothing of the decoded text reaches standard output.
\<close>

theorem decode_invalid_rank:
  "decodeStep tokens encodedText errs =
     (case find (\<lambda>r. \<not> (1 \<le> r \<and> r \<le> int (length tokens))) encodedText of
        None \<Rightarrow>
          \<lparr>stdout = joinTokens (map (\<lambda>r. tokens ! nat (r - 1)) encodedText) @ [CHR 0x0A],
           cerr = errs, exitStatus = 0\<rparr>
      | Some r \<Rightarrow> \<lparr>stdout = [], cerr = errs @ [InvalidPosition r], exitStatus = 1\<rparr>)"
  by (rule decodeStep_eq)

text \<open>
  C5 (rank totality), as amended. For every input with \<open>D < 2 ^ 31\<close> distinct
  tokens, the lookup assigns a rank to exactly the tokens of the input; the set of
  assigned ranks is \<open>{1, \<dots>, D}\<close>; and a rank is the rank of exactly one token if and
  only if it lies in \<open>[1, D]\<close>.
\<close>

theorem rank_totality:
  "card (set (tokenize inputContent)) < 2147483648 \<Longrightarrow>
   dom (tokenPositionOf inputContent) = set (tokenize inputContent)
   \<and> ran (tokenPositionOf inputContent) = {1 .. int (card (set (tokenize inputContent)))}
   \<and> (\<exists>!t. tokenPositionOf inputContent t = Some r) =
       (1 \<le> r \<and> r \<le> int (card (set (tokenize inputContent))))"
  using dom_tokenPositionOf [of inputContent] ran_tokenPositionOf [of inputContent]
    unique_token_of_rank [of inputContent r]
  by (simp only: length_tokensOf)

theorem rank_totality_witness:
  "card (set (tokenize ''b c a b'')) < 2147483648
   \<and> dom (tokenPositionOf ''b c a b'') = set (tokenize ''b c a b'')
   \<and> ran (tokenPositionOf ''b c a b'') = {1 .. int (card (set (tokenize ''b c a b'')))}"
proof -
  have T: "tokenize ''b c a b'' = [''b'', ''c'', ''a'', ''b'']" by code_simp
  have h: "card (set (tokenize ''b c a b'')) < 2147483648"
    using card_length [of "tokenize ''b c a b''"] by (simp add: T)
  from rank_totality [OF h] h show ?thesis by blast
qed

text \<open>
  Without the bound the ranks are not \<open>{1, \<dots>, D}\<close>: with \<open>D = 2 ^ 31\<close> distinct
  tokens the last token of the sorted order gets the rank \<open>- 2 ^ 31\<close>.
\<close>

theorem rank_totality_counterexample:
  "card (set (tokenize manyDistinctTokens)) = 2147483648
   \<and> - 2147483648 \<in> ran (tokenPositionOf manyDistinctTokens)
   \<and> ran (tokenPositionOf manyDistinctTokens) \<noteq>
       {1 .. int (card (set (tokenize manyDistinctTokens)))}"
proof -
  have "- 2147483648 \<in> ran (tokenPositionOf manyDistinctTokens)"
    using wrapped_position by (rule ranI)
  moreover have "- 2147483648 \<notin> {1 .. int (card (set (tokenize manyDistinctTokens)))}"
    by simp
  ultimately show ?thesis using card_manyDistinctTokens by metis
qed




text \<open>
  C7 (determinism). Let \<open>es\<close> list the entries of the frequency map in any iteration
  order, and let \<open>ys\<close> be any result \<^verbatim>\<open>std::sort\<close> may return for \<open>es\<close> with the
  comparator (a permutation of \<open>es\<close> in which no element is smaller than an earlier
  one). Then \<open>ys\<close> is the sorted list of the embedding, and so are the insertion sort
  of \<open>es\<close>, the token-to-rank lookup and the rank-to-token lookup built from \<open>ys\<close>:
  the rank table depends on the input text only.
\<close>

theorem ranking_deterministic:
  "mset es = mset (tokenFrequencyOf inputContent) \<Longrightarrow> mset ys = mset es \<Longrightarrow>
   sorted_wrt (\<lambda>a b. \<not> tokenLess b a) ys \<Longrightarrow>
     ys = sortedTokensOf inputContent
     \<and> sortTokens es = sortedTokensOf inputContent
     \<and> assignPositions ys 1 Map.empty = tokenPositionOf inputContent
     \<and> map fst ys = tokensOf inputContent"
proof -
  assume es: "mset es = mset (tokenFrequencyOf inputContent)" and ys: "mset ys = mset es"
    and sorted: "sorted_wrt (\<lambda>a b. \<not> tokenLess b a) ys"
  from ys es sorted have "ys = sortTokens (tokenFrequencyOf inputContent)"
    by (intro sortTokens_unique distinct_tokenFrequencyOf) simp_all
  moreover from es have "sortTokens es = sortTokens (tokenFrequencyOf inputContent)"
    by (intro sortTokens_permuted distinct_tokenFrequencyOf)
  ultimately show ?thesis
    by (simp add: sortedTokensOf_def tokenPositionOf_def tokensOf_def)
qed

theorem ranking_deterministic_witness:
  "mset [(''a'', 1), (''b'', 2)] = mset (tokenFrequencyOf ''b a b'')
   \<and> mset [(''b'', 2::int), (''a'', 1)] = mset [(''a'', 1), (''b'', 2)]
   \<and> sorted_wrt (\<lambda>a b. \<not> tokenLess b a) [(''b'', 2), (''a'', 1)]
   \<and> [(''b'', 2), (''a'', 1)] = sortedTokensOf ''b a b''
   \<and> sortTokens [(''a'', 1), (''b'', 2)] = sortedTokensOf ''b a b''
   \<and> map fst [(''b'', 2::int), (''a'', 1)] = tokensOf ''b a b''"
proof -
  have F: "tokenFrequencyOf ''b a b'' = [(''b'', 2), (''a'', 1)]" by code_simp
  have h1: "mset [(''a'', 1), (''b'', 2)] = mset (tokenFrequencyOf ''b a b'')"
    unfolding F by simp
  have h2: "mset [(''b'', 2::int), (''a'', 1)] = mset [(''a'', 1), (''b'', 2)]" by simp
  have h3: "sorted_wrt (\<lambda>a b. \<not> tokenLess b a) [(''b'', 2), (''a'', 1)]"
    by (simp add: tokenLess_def)
  from ranking_deterministic [OF h1 h2 h3] h1 h2 h3 show ?thesis by blast
qed

text \<open>
  C8 (empty input). An input without tokens (empty, or whitespace only) is not an
  error: the frequency map, the sorted list, both lookups and the code sequence are
  empty, no diagnostic is written, decoding the empty code sequence gives the empty
  text, and the run ends with exit status 0 after printing the empty line.
\<close>

theorem empty_input:
  "tokenize inputContent = [] \<Longrightarrow>
     tokenFrequencyOf inputContent = []
     \<and> sortedTokensOf inputContent = []
     \<and> tokenPositionOf inputContent = Map.empty
     \<and> tokensOf inputContent = []
     \<and> encodeOf inputContent = ([], [])
     \<and> decodeLoop (tokensOf inputContent) [] [] = Inr []
     \<and> decompressMain inputContent = \<lparr>stdout = [CHR 0x0A], cerr = [], exitStatus = 0\<rparr>"
  by (simp add: empty_stages decompressMain_eq)

theorem empty_input_witness:
  "tokenize '' '' = []
   \<and> tokenFrequencyOf '' '' = []
   \<and> encodeOf '' '' = ([], [])
   \<and> decompressMain '' '' = \<lparr>stdout = [CHR 0x0A], cerr = [], exitStatus = 0\<rparr>"
proof -
  have h: "tokenize '' '' = []" by code_simp
  from empty_input [OF h] h show ?thesis by simp
qed

text \<open>
  C9 (rank table is a bijection), as amended. For every input with \<open>D < 2 ^ 31\<close>
  distinct tokens, the token-to-rank lookup maps \<open>t\<close> to \<open>r\<close> if and only if the
  rank-to-token lookup maps \<open>r\<close> to \<open>t\<close>, and both have \<open>D\<close> entries.
\<close>

theorem rank_table_bijection:
  "card (set (tokenize inputContent)) < 2147483648 \<Longrightarrow>
   (tokenPositionOf inputContent t = Some r) = (rankToToken (tokensOf inputContent) r = Some t)
   \<and> card (dom (tokenPositionOf inputContent)) = card (set (tokenize inputContent))
   \<and> length (tokensOf inputContent) = card (set (tokenize inputContent))"
  by (simp add: tokenPositionOf_rankToToken dom_tokenPositionOf length_tokensOf)

theorem rank_table_bijection_witness:
  "card (set (tokenize ''b c a b'')) < 2147483648
   \<and> (tokenPositionOf ''b c a b'' ''c'' = Some 3) =
       (rankToToken (tokensOf ''b c a b'') 3 = Some ''c'')
   \<and> length (tokensOf ''b c a b'') = card (set (tokenize ''b c a b''))"
proof -
  have T: "tokenize ''b c a b'' = [''b'', ''c'', ''a'', ''b'']" by code_simp
  have h: "card (set (tokenize ''b c a b'')) < 2147483648"
    using card_length [of "tokenize ''b c a b''"] by (simp add: T)
  from rank_table_bijection [OF h, of "''c''" 3] h show ?thesis by blast
qed

text \<open>
  Without the bound the two lookups disagree: with \<open>2 ^ 31\<close> distinct tokens the
  token-to-rank lookup maps the last token of the sorted order to \<open>- 2 ^ 31\<close>, a rank
  at which the rank-to-token lookup has no token.
\<close>

theorem rank_table_bijection_counterexample:
  "tokenPositionOf manyDistinctTokens (tokensOf manyDistinctTokens ! 2147483647) =
     Some (- 2147483648)
   \<and> rankToToken (tokensOf manyDistinctTokens) (- 2147483648) = None"
  by (simp add: wrapped_position rankToToken_def)

text \<open>
  C10 (encoder output is valid decoder input), as amended. For every input with
  \<open>D < 2 ^ 31\<close> distinct tokens, every rank in the code sequence of the encoder is a
  value stored in the token-to-rank lookup and lies in \<open>[1, D]\<close>, with \<open>D\<close> the size
  of the rank-to-token lookup. So the decoding loop never ends with a diagnostic on that
  sequence, and the run writes no diagnostic and ends with exit status 0.
\<close>

theorem encoder_ranks_valid:
  "card (set (tokenize inputContent)) < 2147483648 \<Longrightarrow>
   (r \<in> set (fst (encodeOf inputContent)) \<longrightarrow>
      1 \<le> r \<and> r \<le> int (length (tokensOf inputContent)) \<and> r \<in> ran (tokenPositionOf inputContent))
   \<and> length (tokensOf inputContent) = card (set (tokenize inputContent))
   \<and> (\<forall>e. decodeLoop (tokensOf inputContent) (fst (encodeOf inputContent)) [] \<noteq> Inl e)
   \<and> cerr (decompressMain inputContent) = []
   \<and> exitStatus (decompressMain inputContent) = 0"
  using codes_in_range [of inputContent r]
  by (auto simp: ran_tokenPositionOf length_tokensOf decodeLoop_encodeOf decompressMain_eq)

theorem encoder_ranks_valid_witness:
  "card (set (tokenize ''b a b'')) < 2147483648
   \<and> 2 \<in> set (fst (encodeOf ''b a b''))
   \<and> (1::int) \<le> 2 \<and> 2 \<le> int (length (tokensOf ''b a b''))
   \<and> 2 \<in> ran (tokenPositionOf ''b a b'')"
proof -
  have T: "tokenize ''b a b'' = [''b'', ''a'', ''b'']" by code_simp
  have d: "card (set (tokenize ''b a b'')) < 2147483648"
    using card_length [of "tokenize ''b a b''"] by (simp add: T)
  have h: "2 \<in> set (fst (encodeOf ''b a b''))" by code_simp
  from encoder_ranks_valid [OF d, of 2] d h show ?thesis by blast
qed

text \<open>
  Without the bound the encoder emits an invalid rank: with \<open>2 ^ 31\<close> distinct tokens
  the code sequence contains \<open>- 2 ^ 31\<close>, and the decoder ends with exit status 1.
\<close>

theorem encoder_ranks_valid_counterexample:
  "- 2147483648 \<in> set (fst (encodeOf manyDistinctTokens))
   \<and> exitStatus (decompressMain manyDistinctTokens) = 1"
  by (simp add: wrapped_code decompressMain_manyDistinctTokens)

text \<open>
  The example of the specification: the ranked order, the code sequence and the output
  of the round trip.
\<close>

lemma example_ranked_order:
  "tokensOf ''the cat sat on the mat the cat ran'' =
     [''the'', ''cat'', ''mat'', ''on'', ''ran'', ''sat'']"
  by code_simp

lemma example_code_sequence:
  "encodeOf ''the cat sat on the mat the cat ran'' = ([1, 2, 6, 4, 1, 3, 1, 2, 5], [])"
  by code_simp

lemma example_round_trip:
  "decompressMain ''the cat sat on the mat the cat ran'' =
     \<lparr>stdout = ''the cat sat on the mat the cat ran'' @ [CHR 0x0A], cerr = [], exitStatus = 0\<rparr>"
  by code_simp

lemma example_count_wraps:
  "increment [(''a'', 2147483647)] ''a'' = [(''a'', - 2147483648)]"
  by (simp add: int32_def)

lemma example_position_wraps:
  "assignPositions [(''a'', 1), (''b'', 1)] 2147483647 Map.empty ''b'' = Some (- 2147483648)"
  by (simp add: int32_def)

lemma example_single_token:
  "tokensOf ''x'' = [''x''] \<and> tokenPositionOf ''x'' ''x'' = Some 1 \<and> encodeOf ''x'' = ([1], [])
   \<and> decodeLoop (tokensOf ''x'') [1] [] = Inr ''x''"
  by code_simp

end
